theory Spec2Isabelle
  imports Main "HOL-Library.AList"
begin

section \<open>ComponentContainer (componentContainer.js): data model\<close>

text \<open>
  The mixin manages the ordered list \<open>_components\<close> of a host object. Components are
  JavaScript objects, compared by reference, so the model keeps them in an explicit heap
  (a list of component records, an object's address being its index) and hosts refer to
  them by address. Every method takes the world and returns it updated; an exception
  is the \<open>Inl\<close> branch of the result, paired with the world as the exception left it.
\<close>

datatype jsval = JUndefined | JNull | JBool bool | JNum int | JStr string

text \<open>JavaScript truthiness, as used by \<open>!obj.uid\<close>.\<close>

fun truthy :: "jsval \<Rightarrow> bool" where
  "truthy JUndefined = False"
| "truthy JNull = False"
| "truthy (JBool b) = b"
| "truthy (JNum n) = (n \<noteq> 0)"
| "truthy (JStr s) = (s \<noteq> [])"

text \<open>A plain data object, as \<open>serialize()\<close> returns it: keys in insertion order.\<close>

type_synonym data = "(string \<times> jsval) list"

definition get_prop :: "data \<Rightarrow> string \<Rightarrow> jsval" where
  "get_prop obj k = (case map_of obj k of None \<Rightarrow> JUndefined | Some v \<Rightarrow> v)"

definition set_prop :: "data \<Rightarrow> string \<Rightarrow> jsval \<Rightarrow> data" where
  "set_prop obj k v = AList.update k v obj"

text \<open>A class (constructor function): its identity and its \<open>name\<close>.\<close>

datatype jsclass = JSClass (class_id: nat) (class_name: string)

text \<open>
  A component object. \<open>root\<close> is \<open>_root\<close> (\<open>None\<close> for null or never set), \<open>uid\<close> is the
  own property \<open>uid\<close> (\<open>None\<close> when \<open>hasOwnProperty("uid")\<close> is false). The optional
  members are code outside this file: \<open>onAddedToNode\<close>, \<open>onRemovedFromNode\<close> and
  \<open>configure\<close> say whether the member exists, and \<open>serialize\<close> holds the object that
  \<open>serialize()\<close> returns when the member exists. A call of a hook, of \<open>configure\<close>, of
  \<open>LEvent.unbindAll\<close> or of \<open>console.error\<close> is recorded as an event in the world's trace;
  the model gives these calls no other effect on hosts or components, and \<open>serialize()\<close>
  none at all.
\<close>

record component =
  constructor :: jsclass
  root :: "nat option"
  uid :: "string option"
  onAddedToNode :: bool
  onRemovedFromNode :: bool
  configure :: bool
  serialize :: "data option"

text \<open>
  A host: \<open>_components\<close> (\<open>None\<close> until the first \<open>addComponent\<close> defines the property)
  and the host's own \<open>transform\<close> member, used by \<open>configureComponents\<close>.
\<close>

record host =
  host_components :: "nat list option"
  host_transform :: "nat option"

text \<open>The object \<open>o\<close> / \<open>info\<close> of (de)serialization: its \<open>components\<close> member.\<close>

record info =
  components :: "(string \<times> data) list option"

datatype event =
    OnAddedToNode nat nat
  | OnRemovedFromNode nat nat
  | UnbindAll nat nat
  | Configure nat data
  | ConsoleError string

record world =
  hosts :: "nat \<Rightarrow> host"
  heap :: "component list"
  last_uid :: nat
  trace :: "event list"

datatype jsref = Null | Undefined | Ref nat

datatype error = TypeError | Thrown string

text \<open>
  \<open>LS.Components\<close> as a lookup by class name: \<open>None\<close> where \<open>LS.Components[name]\<close> is
  falsy, otherwise the constructor, as the function from the serialized data to the object
  that \<open>new\<close> returns.
\<close>

type_synonym registry = "string \<Rightarrow> (data \<Rightarrow> component) option"

section \<open>Helpers for reading and writing the world\<close>

definition emit :: "event \<Rightarrow> world \<Rightarrow> world" where
  "emit e w = w\<lparr>trace := trace w @ [e]\<rparr>"

definition set_root :: "nat \<Rightarrow> nat option \<Rightarrow> world \<Rightarrow> world" where
  "set_root c r w = w\<lparr>heap := (heap w)[c := (heap w ! c)\<lparr>root := r\<rparr>]\<rparr>"

definition set_uid :: "nat \<Rightarrow> string \<Rightarrow> world \<Rightarrow> world" where
  "set_uid c u w = w\<lparr>heap := (heap w)[c := (heap w ! c)\<lparr>uid := Some u\<rparr>]\<rparr>"

definition set_components :: "nat \<Rightarrow> nat list \<Rightarrow> world \<Rightarrow> world" where
  "set_components this cs w =
     w\<lparr>hosts := (hosts w)(this := (hosts w this)\<lparr>host_components := Some cs\<rparr>)\<rparr>"

text \<open>\<open>Array.prototype.indexOf\<close>: the first position of the element, or -1.\<close>

fun indexOf_from :: "nat list \<Rightarrow> nat \<Rightarrow> nat \<Rightarrow> int" where
  "indexOf_from [] c i = -1"
| "indexOf_from (x # xs) c i = (if x = c then int i else indexOf_from xs c (Suc i))"

definition indexOf :: "nat list \<Rightarrow> nat \<Rightarrow> int" where
  "indexOf xs c = indexOf_from xs c 0"

text \<open>\<open>splice(pos, 1)\<close>: the list without the element at \<open>pos\<close>.\<close>

definition splice1 :: "nat list \<Rightarrow> nat \<Rightarrow> nat list" where
  "splice1 xs pos = take pos xs @ drop (Suc pos) xs"

text \<open>
  Modelled from the spec: \<open>LS.generateUId\<close> is not in the source; the spec describes it
  as \<open>generate(prefix) -> string\<close>, a generator of unique ids. Here it is the prefix
  followed by the decimal value of a counter that it increments.
\<close>

fun digits :: "nat \<Rightarrow> string" where
  "digits n = (if n < 10 then [''0123456789'' ! n]
               else digits (n div 10) @ [''0123456789'' ! (n mod 10)])"

declare digits.simps [simp del]

definition generateUId :: "string \<Rightarrow> world \<Rightarrow> string \<times> world" where
  "generateUId prefix w = (prefix @ digits (last_uid w), w\<lparr>last_uid := Suc (last_uid w)\<rparr>)"

text \<open>
  Modelled from the spec: \<open>getObjectClassName\<close> is not in the source; the spec calls its
  result the component's class name, which is the name of its constructor.
\<close>

definition getObjectClassName :: "component \<Rightarrow> string" where
  "getObjectClassName c = class_name (constructor c)"

section \<open>The methods\<close>

subsection \<open>addComponent\<close>

definition addComponent :: "nat \<Rightarrow> jsref \<Rightarrow> world \<Rightarrow> (error + jsref) \<times> world" where
  "addComponent this component w =
     (case component of
        Ref c \<Rightarrow>
          let w1 = set_root c (Some this) w;
              w2 = (if onAddedToNode (heap w1 ! c) then emit (OnAddedToNode c this) w1 else w1);
              w3 = (if host_components (hosts w2 this) = None
                    then set_components this [] w2 else w2);
              cs = the (host_components (hosts w3 this))
          in if indexOf cs c \<noteq> -1
             then (Inl (Thrown ''inserting the same component twice''), w3)
             else
               let w4 = set_components this (cs @ [c]) w3;
                   w5 = (if uid (heap w4 ! c) = None
                         then (case generateUId ''COMP-'' w4 of (u, w') \<Rightarrow> set_uid c u w')
                         else w4)
               in (Inr (Ref c), w5)
      | _ \<Rightarrow> (Inr Undefined, emit (ConsoleError ''addComponent cannot receive null'') w))"

subsection \<open>removeComponent and removeAllComponents\<close>

definition removeComponent :: "nat \<Rightarrow> jsref \<Rightarrow> world \<Rightarrow> (error + unit) \<times> world" where
  "removeComponent this component w =
     (case component of
        Ref c \<Rightarrow>
          let w1 = set_root c None w;
              w2 = (if onRemovedFromNode (heap w1 ! c)
                    then emit (OnRemovedFromNode c this) w1 else w1);
              w3 = emit (UnbindAll this c) w2
          in (case host_components (hosts w3 this) of
                None \<Rightarrow> (Inl TypeError, w3)
              | Some cs \<Rightarrow>
                  let pos = indexOf cs c
                  in (Inr (), if pos \<noteq> -1 then set_components this (splice1 cs (nat pos)) w3
                              else w3))
      | _ \<Rightarrow> (Inr (), emit (ConsoleError ''removeComponent cannot receive null'') w))"

text \<open>
  The loop \<open>while(this._components.length) this.removeComponent(this._components[0])\<close>.
  Reading \<open>length\<close> of a missing \<open>_components\<close> is a TypeError; an exception of
  \<open>removeComponent\<close> leaves the loop.
\<close>

function removeAllComponents :: "nat \<Rightarrow> world \<Rightarrow> (error + unit) \<times> world" where
  "removeAllComponents this w =
     (case host_components (hosts w this) of
        None \<Rightarrow> (Inl TypeError, w)
      | Some cs \<Rightarrow>
          if length cs \<noteq> 0
          then (case removeComponent this (Ref (cs ! 0)) w of
                  (Inl e, w') \<Rightarrow> (Inl e, w')
                | (Inr u, w') \<Rightarrow> removeAllComponents this w')
          else (Inr (), w))"
  by pat_completeness auto
termination
proof (relation "measure (\<lambda>(this, w). case host_components (hosts w this) of
                                      None \<Rightarrow> 0 | Some cs \<Rightarrow> length cs)")
  show "wf (measure (\<lambda>(this, w). case host_components (hosts w this) of
                                      None \<Rightarrow> 0 | Some cs \<Rightarrow> length cs))"
    by simp
next
  fix this :: nat and w w' :: world and cs :: "nat list" and r :: "error + unit" and u :: unit
  assume cs: "host_components (hosts w this) = Some cs" "length cs \<noteq> 0"
    and step: "(r, w') = removeComponent this (Ref (cs ! 0)) w" "r = Inr u"
  from cs obtain x xs where xs: "cs = x # xs"
    by (cases cs) auto
  from step cs have "host_components (hosts w' this) = Some xs"
    by (auto simp: removeComponent_def Let_def emit_def set_root_def set_components_def
          indexOf_def splice1_def xs split: if_splits)
  with cs show "((this, w'), (this, w)) \<in> measure (\<lambda>(this, w).
      case host_components (hosts w this) of None \<Rightarrow> 0 | Some cs \<Rightarrow> length cs)"
    by (simp add: xs)
qed

declare removeAllComponents.simps [simp del]

subsection \<open>Lookups\<close>

text \<open>
  The argument of \<open>hasComponent\<close> and \<open>getComponent\<close>: a string (compared with
  \<open>constructor.name\<close>) or a class (compared with \<open>constructor\<close>).
\<close>

datatype class_arg = ClassName string | ClassRef jsclass

text \<open>
  The scan \<open>for(var i in this._components) if( test(this._components[i]) ) return ...\<close>:
  the first element, in index order, that passes the test.
\<close>

fun first_match :: "(component \<Rightarrow> bool) \<Rightarrow> component list \<Rightarrow> nat list \<Rightarrow> nat option" where
  "first_match test hp [] = None"
| "first_match test hp (c # cs) = (if test (hp ! c) then Some c else first_match test hp cs)"

definition matches :: "class_arg \<Rightarrow> component \<Rightarrow> bool" where
  "matches component_class c =
     (case component_class of
        ClassName n \<Rightarrow> class_name (constructor c) = n
      | ClassRef k \<Rightarrow> constructor c = k)"

definition hasComponent :: "nat \<Rightarrow> class_arg \<Rightarrow> world \<Rightarrow> bool" where
  "hasComponent this component_class w =
     (case host_components (hosts w this) of
        None \<Rightarrow> False
      | Some cs \<Rightarrow>
          (case first_match (matches component_class) (heap w) cs of
             Some c \<Rightarrow> True
           | None \<Rightarrow> False))"

definition getComponent :: "nat \<Rightarrow> class_arg \<Rightarrow> world \<Rightarrow> jsref" where
  "getComponent this component_class w =
     (case host_components (hosts w this) of
        None \<Rightarrow> Null
      | Some cs \<Rightarrow>
          (case first_match (matches component_class) (heap w) cs of
             Some c \<Rightarrow> Ref c
           | None \<Rightarrow> Null))"

definition getComponentByUId :: "nat \<Rightarrow> string \<Rightarrow> world \<Rightarrow> jsref" where
  "getComponentByUId this u w =
     (case host_components (hosts w this) of
        None \<Rightarrow> Null
      | Some cs \<Rightarrow>
          (case first_match (\<lambda>c. uid c = Some u) (heap w) cs of
             Some c \<Rightarrow> Ref c
           | None \<Rightarrow> Null))"

definition getIndexOfComponent :: "nat \<Rightarrow> jsref \<Rightarrow> world \<Rightarrow> int" where
  "getIndexOfComponent this component w =
     (case host_components (hosts w this) of
        None \<Rightarrow> -1
      | Some cs \<Rightarrow> (case component of Ref c \<Rightarrow> indexOf cs c | _ \<Rightarrow> -1))"

text \<open>
  \<open>this._components[index]\<close> for a numeric index: reading an array outside its range
  gives \<open>undefined\<close>.
\<close>

definition getComponentByIndex :: "nat \<Rightarrow> int \<Rightarrow> world \<Rightarrow> jsref" where
  "getComponentByIndex this index w =
     (case host_components (hosts w this) of
        None \<Rightarrow> Null
      | Some cs \<Rightarrow>
          if 0 \<le> index \<and> index < int (length cs) then Ref (cs ! nat index) else Undefined)"

definition getComponents :: "nat \<Rightarrow> world \<Rightarrow> nat list option" where
  "getComponents this w = host_components (hosts w this)"

subsection \<open>serializeComponents\<close>

fun serialize_loop :: "component list \<Rightarrow> nat list \<Rightarrow> (string \<times> data) list \<Rightarrow> (string \<times> data) list" where
  "serialize_loop hp [] out = out"
| "serialize_loop hp (i # rest) out =
     (let c = hp ! i
      in case serialize c of
           None \<Rightarrow> serialize_loop hp rest out
         | Some obj \<Rightarrow>
             let obj' = (if uid c \<noteq> None \<and> \<not> truthy (get_prop obj ''uid'')
                         then set_prop obj ''uid'' (JStr (the (uid c))) else obj)
             in serialize_loop hp rest (out @ [(getObjectClassName c, obj')]))"

definition serializeComponents :: "nat \<Rightarrow> info \<Rightarrow> world \<Rightarrow> info" where
  "serializeComponents this target w =
     (case host_components (hosts w this) of
        None \<Rightarrow> target
      | Some cs \<Rightarrow> target\<lparr>components := Some (serialize_loop (heap w) cs [])\<rparr>)"

subsection \<open>configureComponents\<close>

text \<open>\<open>new LS.Components[comp_class]( data )\<close>: a new object, at a new address.\<close>

definition new_component :: "(data \<Rightarrow> component) \<Rightarrow> data \<Rightarrow> world \<Rightarrow> nat \<times> world" where
  "new_component ctor d w = (length (heap w), w\<lparr>heap := heap w @ [ctor d]\<rparr>)"

text \<open>
  The loop over \<open>info.components\<close>, \<open>i\<close> the position of the entry. The registry
  \<open>LS.Components\<close> is a parameter. \<open>this.transform.configure\<close> is a TypeError when the
  host has no \<open>transform\<close> or the transform has no \<open>configure\<close>.
\<close>

fun configure_loop :: "registry \<Rightarrow> nat \<Rightarrow> nat \<Rightarrow> (string \<times> data) list \<Rightarrow> world \<Rightarrow> (error + unit) \<times> world" where
  "configure_loop reg this i [] w = (Inr (), w)"
| "configure_loop reg this i (comp_info # rest) w =
     (let comp_class = fst comp_info
      in if comp_class = ''Transform'' \<and> i = 0
         then (case host_transform (hosts w this) of
                 None \<Rightarrow> (Inl TypeError, w)
               | Some t \<Rightarrow>
                   if configure (heap w ! t)
                   then configure_loop reg this (Suc i) rest (emit (Configure t (snd comp_info)) w)
                   else (Inl TypeError, w))
         else (case reg comp_class of
                 None \<Rightarrow>
                   configure_loop reg this (Suc i) rest
                     (emit (ConsoleError (''Unknown component found: '' @ comp_class)) w)
               | Some ctor \<Rightarrow>
                   (case new_component ctor (snd comp_info) w of
                      (c, w1) \<Rightarrow>
                        (case addComponent this (Ref c) w1 of
                           (Inl e, w2) \<Rightarrow> (Inl e, w2)
                         | (Inr r, w2) \<Rightarrow> configure_loop reg this (Suc i) rest w2))))"

definition configureComponents :: "registry \<Rightarrow> nat \<Rightarrow> info \<Rightarrow> world \<Rightarrow> (error + unit) \<times> world" where
  "configureComponents reg this info w =
     (case components info of
        None \<Rightarrow> (Inr (), w)
      | Some entries \<Rightarrow> configure_loop reg this 0 entries w)"

section \<open>Example worlds\<close>

definition light :: component where
  "light = \<lparr>constructor = JSClass 1 ''Light'', root = None, uid = None,
            onAddedToNode = True, onRemovedFromNode = True, configure = True,
            serialize = Some [(''intensity'', JNum 2)]\<rparr>"

definition camera :: component where
  "camera = \<lparr>constructor = JSClass 2 ''Camera'', root = None, uid = None,
            onAddedToNode = False, onRemovedFromNode = False, configure = False,
            serialize = None\<rparr>"

definition empty_host :: host where
  "empty_host = \<lparr>host_components = None, host_transform = None\<rparr>"

definition fresh_world :: world where
  "fresh_world = \<lparr>hosts = (\<lambda>h. empty_host), heap = [light, camera], last_uid = 0, trace = []\<rparr>"

definition attached_world :: world where
  "attached_world =
     \<lparr>hosts = (\<lambda>h. empty_host)(0 := \<lparr>host_components = Some [0], host_transform = None\<rparr>),
      heap = [light\<lparr>root := Some 0, uid := Some ''COMP-0''\<rparr>, camera],
      last_uid = 1, trace = [OnAddedToNode 0 0]\<rparr>"

definition two_world :: world where
  "two_world =
     \<lparr>hosts = (\<lambda>h. empty_host)(0 := \<lparr>host_components = Some [0, 1], host_transform = None\<rparr>),
      heap = [light\<lparr>root := Some 0, uid := Some ''COMP-0''\<rparr>,
              camera\<lparr>root := Some 0, uid := Some ''COMP-1''\<rparr>],
      last_uid = 2, trace = [OnAddedToNode 0 0]\<rparr>"

section \<open>The specification's words for the stored pairs\<close>

text \<open>
  What the specification says \<open>serializeComponents\<close> stores: for each attached component
  exposing \<open>serialize\<close>, in attachment order, the pair of its class name and of its data
  object, with the component's uid carried into it if not already present.
\<close>

definition carried_data :: "component \<Rightarrow> data" where
  "carried_data c =
     (case serialize c of
        None \<Rightarrow> []
      | Some obj \<Rightarrow>
          if uid c \<noteq> None \<and> \<not> truthy (get_prop obj ''uid'')
          then set_prop obj ''uid'' (JStr (the (uid c))) else obj)"

definition component_pairs :: "component list \<Rightarrow> nat list \<Rightarrow> (string \<times> data) list" where
  "component_pairs hp cs =
     map (\<lambda>i. (class_name (constructor (hp ! i)), carried_data (hp ! i)))
       (filter (\<lambda>i. serialize (hp ! i) \<noteq> None) cs)"

section \<open>Sequences of calls\<close>

text \<open>
  A caller making one call after another on any hosts. A call that throws leaves the world
  as the exception found it, and the caller goes on.
\<close>

datatype op =
    AddComponent nat jsref
  | RemoveComponent nat jsref
  | RemoveAllComponents nat
  | ConfigureComponents registry nat info

fun step :: "op \<Rightarrow> world \<Rightarrow> world" where
  "step (AddComponent this c) w = snd (addComponent this c w)"
| "step (RemoveComponent this c) w = snd (removeComponent this c w)"
| "step (RemoveAllComponents this) w = snd (removeAllComponents this w)"
| "step (ConfigureComponents reg this info) w = snd (configureComponents reg this info w)"

fun run :: "op list \<Rightarrow> world \<Rightarrow> world" where
  "run [] w = w"
| "run (x # xs) w = run xs (step x w)"

section \<open>Words for the round trip\<close>








definition faithful :: "registry \<Rightarrow> string \<times> data \<Rightarrow> bool" where
  "faithful reg e =
     (case reg (fst e) of
        None \<Rightarrow> False
      | Some ctor \<Rightarrow>
          class_name (constructor (ctor (snd e))) = fst e
          \<and> serialize (ctor (snd e)) \<noteq> None
          \<and> carried_data (ctor (snd e)) = snd e
          \<and> (uid (ctor (snd e)) \<noteq> None \<or> truthy (get_prop (snd e) ''uid'')))"

section \<open>More example components, registries and worlds\<close>







text \<open>
  A constructor that takes its uid from the data and serializes only its other fields:
  the registry is faithful to the Light pair (\<open>adopting_registry_faithful\<close>).
\<close>

definition adopting_registry :: registry where
  "adopting_registry =
     (\<lambda>n. if n = ''Light''
          then Some (\<lambda>d. light\<lparr>uid := (case get_prop d ''uid'' of JStr u \<Rightarrow> Some u | _ \<Rightarrow> None),
                                 serialize := Some (filter (\<lambda>p. fst p \<noteq> ''uid'') d)\<rparr>)
          else None)"




section \<open>Basic lemmas\<close>

lemma emit_simps [simp]:
  "hosts (emit e w) = hosts w" "heap (emit e w) = heap w"
  "last_uid (emit e w) = last_uid w" "trace (emit e w) = trace w @ [e]"
  by (simp_all add: emit_def)

lemma set_root_simps [simp]:
  "hosts (set_root c r w) = hosts w"
  "heap (set_root c r w) = (heap w)[c := (heap w ! c)\<lparr>root := r\<rparr>]"
  "last_uid (set_root c r w) = last_uid w" "trace (set_root c r w) = trace w"
  by (simp_all add: set_root_def)

lemma set_uid_simps [simp]:
  "hosts (set_uid c u w) = hosts w"
  "heap (set_uid c u w) = (heap w)[c := (heap w ! c)\<lparr>uid := Some u\<rparr>]"
  "last_uid (set_uid c u w) = last_uid w" "trace (set_uid c u w) = trace w"
  by (simp_all add: set_uid_def)

lemma set_components_simps [simp]:
  "hosts (set_components this cs w) = (hosts w)(this := (hosts w this)\<lparr>host_components := Some cs\<rparr>)"
  "heap (set_components this cs w) = heap w"
  "last_uid (set_components this cs w) = last_uid w"
  "trace (set_components this cs w) = trace w"
  by (simp_all add: set_components_def)

lemma generateUId_simps [simp]:
  "hosts (snd (generateUId p w)) = hosts w" "heap (snd (generateUId p w)) = heap w"
  "trace (snd (generateUId p w)) = trace w"
  "last_uid (snd (generateUId p w)) = Suc (last_uid w)"
  by (simp_all add: generateUId_def)

lemma indexOf_from_range: "indexOf_from xs c i = -1 \<or> int i \<le> indexOf_from xs c i"
  by (induction xs arbitrary: i) (auto, force)

lemma indexOf_from_absent: "indexOf_from xs c i = -1 \<longleftrightarrow> c \<notin> set xs"
proof (induction xs arbitrary: i)
  case Nil
  show ?case by simp
next
  case (Cons x xs)
  then show ?case by auto
qed

lemma indexOf_absent: "indexOf xs c = -1 \<longleftrightarrow> c \<notin> set xs"
  by (simp add: indexOf_def indexOf_from_absent)

lemma splice1_indexOf_from:
  "c \<in> set xs \<Longrightarrow> take (nat (indexOf_from xs c i) - i) xs @ drop (Suc (nat (indexOf_from xs c i) - i)) xs = remove1 c xs"
proof (induction xs arbitrary: i)
  case Nil
  then show ?case by simp
next
  case (Cons x xs)
  show ?case
  proof (cases "x = c")
    case True
    then show ?thesis by simp
  next
    case False
    with Cons.prems have mem: "c \<in> set xs" by simp
    have "indexOf_from xs c (Suc i) \<noteq> -1" using mem by (simp add: indexOf_from_absent)
    with indexOf_from_range [of xs c "Suc i"] have ge: "int (Suc i) \<le> indexOf_from xs c (Suc i)"
      by simp
    then have "nat (indexOf_from xs c (Suc i)) - i = Suc (nat (indexOf_from xs c (Suc i)) - Suc i)"
      by linarith
    with False Cons.IH [OF mem, of "Suc i"] show ?thesis by simp
  qed
qed

lemma splice1_indexOf: "c \<in> set xs \<Longrightarrow> splice1 xs (nat (indexOf xs c)) = remove1 c xs"
  using splice1_indexOf_from [of c xs 0] by (simp add: splice1_def indexOf_def)

lemma first_match_found:
  "c \<in> set cs \<Longrightarrow> test (hp ! c) \<Longrightarrow> first_match test hp cs \<noteq> None"
  by (induction cs) auto

lemma indexOf_from_nonneg: "c \<in> set xs \<Longrightarrow> 0 \<le> indexOf_from xs c i"
  using indexOf_from_range [of xs c i] indexOf_from_absent [of xs c i] by auto

lemma indexOf_nonneg: "c \<in> set xs \<Longrightarrow> 0 \<le> indexOf xs c"
  by (simp add: indexOf_def indexOf_from_nonneg)

lemma filter_other_id: "c \<notin> set xs \<Longrightarrow> filter (\<lambda>x. x \<noteq> c) xs = xs"
  by (induction xs) auto

lemma remove1_distinct_filter: "distinct xs \<Longrightarrow> remove1 c xs = filter (\<lambda>x. x \<noteq> c) xs"
  by (induction xs) (auto simp: filter_other_id)

lemma two_world_reached: "snd (addComponent 0 (Ref 1) attached_world) = two_world"
  by (simp add: addComponent_def two_world_def attached_world_def light_def camera_def
      empty_host_def Let_def indexOf_def generateUId_def digits.simps [of "Suc 0"] set_components_def set_root_def emit_def set_uid_def)

lemma attached_world_reached: "snd (addComponent 0 (Ref 0) fresh_world) = attached_world"
  by (simp add: addComponent_def fresh_world_def attached_world_def light_def camera_def
      empty_host_def Let_def indexOf_def generateUId_def digits.simps [of 0] set_components_def set_root_def emit_def set_uid_def)

lemma serialize_loop_pairs: "serialize_loop hp cs out = out @ component_pairs hp cs"
  by (induction cs arbitrary: out)
    (auto simp: component_pairs_def carried_data_def getObjectClassName_def Let_def)

lemma uid_root_update: "uid (hp[c := (hp ! c)\<lparr>root := r\<rparr>] ! j) = uid (hp ! j)"
proof (cases "j = c \<and> c < length hp")
  case True
  then show ?thesis by simp
next
  case False
  then show ?thesis by (cases "j = c") (auto simp: list_update_beyond)
qed

lemma addComponent_length: "length (heap (snd (addComponent this r w))) = length (heap w)"
  by (cases r) (simp_all add: addComponent_def Let_def generateUId_def)

lemma addComponent_uid_other:
  "r \<noteq> Ref c \<Longrightarrow> uid (heap (snd (addComponent this r w)) ! c) = uid (heap w ! c)"
  by (cases r) (auto simp: addComponent_def Let_def generateUId_def uid_root_update)

lemma addComponent_uid_kept:
  "uid (heap w ! c) = Some u \<Longrightarrow> uid (heap (snd (addComponent this r w)) ! c) = Some u"
proof (cases "r = Ref c")
  case False
  assume "uid (heap w ! c) = Some u"
  with False show ?thesis by (simp add: addComponent_uid_other)
next
  case True
  assume "uid (heap w ! c) = Some u"
  with True show ?thesis
    by (simp add: addComponent_def Let_def uid_root_update)
qed

lemma removeComponent_length: "length (heap (snd (removeComponent this r w))) = length (heap w)"
  by (cases r) (simp_all add: removeComponent_def Let_def split: option.splits)

lemma removeComponent_uid: "uid (heap (snd (removeComponent this r w)) ! c) = uid (heap w ! c)"
  by (cases r) (simp_all add: removeComponent_def Let_def uid_root_update split: option.splits)

lemma removeAllComponents_frame:
  "length (heap (snd (removeAllComponents this w))) = length (heap w)
   \<and> uid (heap (snd (removeAllComponents this w)) ! c) = uid (heap w ! c)"
proof (induction this w rule: removeAllComponents.induct)
  case (1 this w)
  show ?case
  proof (cases "host_components (hosts w this)")
    case None
    then show ?thesis by (simp add: removeAllComponents.simps [of this w])
  next
    case (Some cs)
    show ?thesis
    proof (cases "length cs \<noteq> 0")
      case False
      with Some show ?thesis by (simp add: removeAllComponents.simps [of this w])
    next
      case True
      obtain r w' where rm: "removeComponent this (Ref (cs ! 0)) w = (r, w')"
        by (cases "removeComponent this (Ref (cs ! 0)) w")
      have fr: "length (heap w') = length (heap w)" "uid (heap w' ! c) = uid (heap w ! c)"
        using removeComponent_length [of this "Ref (cs ! 0)" w]
          removeComponent_uid [of this "Ref (cs ! 0)" w c] rm by simp_all
      show ?thesis
      proof (cases r)
        case (Inl e)
        with Some True rm fr show ?thesis by (simp add: removeAllComponents.simps [of this w])
      next
        case (Inr u)
        from "1.IH" [OF Some True rm [symmetric] Inr]
        have "length (heap (snd (removeAllComponents this w'))) = length (heap w')
            \<and> uid (heap (snd (removeAllComponents this w')) ! c) = uid (heap w' ! c)" .
        with Some True rm fr Inr show ?thesis by (simp add: removeAllComponents.simps [of this w])
      qed
    qed
  qed
qed

lemma configure_loop_frame:
  "c < length (heap w) \<Longrightarrow>
   length (heap w) \<le> length (heap (snd (configure_loop reg this i es w)))
   \<and> uid (heap (snd (configure_loop reg this i es w)) ! c) = uid (heap w ! c)"
proof (induction es arbitrary: w i)
  case Nil
  show ?case by simp
next
  case (Cons e es)
  show ?case
  proof (cases "fst e = ''Transform'' \<and> i = 0")
    case True
    show ?thesis
    proof (cases "host_transform (hosts w this)")
      case None
      with True show ?thesis by simp
    next
      case (Some t)
      show ?thesis
      proof (cases "configure (heap w ! t)")
        case False
        with True Some show ?thesis by simp
      next
        case cfg: True
        define w' where "w' = emit (Configure t (snd e)) w"
        have eq: "configure_loop reg this i (e # es) w = configure_loop reg this (Suc i) es w'"
          using True Some cfg by (simp add: w'_def)
        have "c < length (heap w')" using Cons.prems by (simp add: w'_def)
        from Cons.IH [OF this, of "Suc i"] show ?thesis
          unfolding eq by (simp add: w'_def)
      qed
    qed
  next
    case False
    show ?thesis
    proof (cases "reg (fst e)")
      case None
      define w' where "w' = emit (ConsoleError (''Unknown component found: '' @ fst e)) w"
      have eq: "configure_loop reg this i (e # es) w = configure_loop reg this (Suc i) es w'"
        using False None by (auto simp: w'_def Let_def)
      have "c < length (heap w')" using Cons.prems by (simp add: w'_def)
      from Cons.IH [OF this, of "Suc i"] show ?thesis
        unfolding eq by (simp add: w'_def)
    next
      case (Some ctor)
      define w1 where "w1 = w\<lparr>heap := heap w @ [ctor (snd e)]\<rparr>"
      define n where "n = length (heap w)"
      obtain r w2 where add: "addComponent this (Ref n) w1 = (r, w2)"
        by (cases "addComponent this (Ref n) w1")
      have ne: "Ref n \<noteq> Ref c" using Cons.prems by (simp add: n_def)
      have len2: "length (heap w2) = Suc (length (heap w))"
        using addComponent_length [of this "Ref n" w1] add by (simp add: w1_def)
      have uid2: "uid (heap w2 ! c) = uid (heap w ! c)"
        using addComponent_uid_other [OF ne, of this w1] add Cons.prems
        by (simp add: w1_def nth_append)
      have c2: "c < length (heap w2)" using len2 Cons.prems by simp
      show ?thesis
      proof (cases r)
        case (Inl err)
        have eq: "configure_loop reg this i (e # es) w = (Inl err, w2)"
          using False Some add Inl by (auto simp: Let_def new_component_def w1_def n_def)
        show ?thesis unfolding eq using len2 uid2 by simp
      next
        case (Inr v)
        have eq: "configure_loop reg this i (e # es) w = configure_loop reg this (Suc i) es w2"
          using False Some add Inr by (auto simp: Let_def new_component_def w1_def n_def)
        from Cons.IH [OF c2, of "Suc i"] show ?thesis
          unfolding eq using len2 uid2 by simp
      qed
    qed
  qed
qed

lemma step_frame:
  "c < length (heap w) \<Longrightarrow>
   length (heap w) \<le> length (heap (step x w))
   \<and> (uid (heap w ! c) = Some u \<longrightarrow> uid (heap (step x w) ! c) = Some u)"
proof (cases x)
  case (AddComponent this r)
  then show ?thesis by (simp add: addComponent_length addComponent_uid_kept)
next
  case (RemoveComponent this r)
  then show ?thesis by (simp add: removeComponent_length removeComponent_uid)
next
  case (RemoveAllComponents this)
  then show ?thesis using removeAllComponents_frame [of this w c] by simp
next
  case (ConfigureComponents reg this info)
  assume "c < length (heap w)"
  with ConfigureComponents show ?thesis
    using configure_loop_frame [of c w reg this 0]
    by (simp add: configureComponents_def split: option.splits)
qed

lemma step_changes_uid:
  assumes "c < length (heap w)" and "uid (heap (step x w) ! c) \<noteq> uid (heap w ! c)"
  shows "uid (heap w ! c) = None \<and> (\<exists>this. x = AddComponent this (Ref c))"
proof (cases x)
  case (AddComponent this r)
  with assms(2) have "r = Ref c" using addComponent_uid_other [of r c this w] by auto
  moreover have "uid (heap w ! c) = None"
    using assms(2) AddComponent addComponent_uid_kept [of w c _ this r] by (cases "uid (heap w ! c)") auto
  ultimately show ?thesis using AddComponent by simp
next
  case (RemoveComponent this r)
  with assms(2) show ?thesis by (simp add: removeComponent_uid)
next
  case (RemoveAllComponents this)
  with assms(2) show ?thesis using removeAllComponents_frame [of this w c] by simp
next
  case (ConfigureComponents reg this info)
  with assms show ?thesis
    using configure_loop_frame [of c w reg this 0]
    by (simp add: configureComponents_def split: option.splits)
qed

lemma run_frame:
  "c < length (heap w) \<Longrightarrow> uid (heap w ! c) = Some u \<Longrightarrow> uid (heap (run ops w) ! c) = Some u"
proof (induction ops arbitrary: w)
  case Nil
  then show ?case by simp
next
  case (Cons x xs)
  from step_frame [OF Cons.prems(1), of x u] Cons.prems(2)
  have "c < length (heap (step x w))" "uid (heap (step x w) ! c) = Some u"
    using Cons.prems(1) by auto
  from Cons.IH [OF this] show ?case by simp
qed



lemma component_pairs_cong:
  "(\<And>c. c \<in> set cs \<Longrightarrow> hp' ! c = hp ! c) \<Longrightarrow> component_pairs hp' cs = component_pairs hp cs"
  by (induction cs) (auto simp: component_pairs_def)






lemma adopting_registry_faithful:
  "faithful adopting_registry (''Light'', [(''intensity'', JNum 2), (''uid'', JStr ''COMP-0'')])"
  by (simp add: faithful_def adopting_registry_def light_def carried_data_def get_prop_def
      set_prop_def)


text \<open>
  The collections never hold a component twice: every method keeps this, so it holds in
  every world that calls of the methods reach from hosts without components.
\<close>

lemma addComponent_distinct:
  assumes "\<forall>h cs. host_components (hosts w h) = Some cs \<longrightarrow> distinct cs"
    and "host_components (hosts (snd (addComponent this r w)) h) = Some cs"
  shows "distinct cs"
proof (cases r)
  case (Ref c)
  show ?thesis
  proof (cases "h = this")
    case False
    with assms Ref show ?thesis
      by (auto simp: addComponent_def Let_def generateUId_def split: if_splits)
  next
    case True
    show ?thesis
    proof (cases "host_components (hosts w this)")
      case None
      with assms(2) Ref True show ?thesis
        by (auto simp: addComponent_def Let_def generateUId_def indexOf_def split: if_splits)
    next
      case (Some ds)
      with assms(1) have "distinct ds" by blast
      with assms(2) Ref True Some show ?thesis
        by (auto simp: addComponent_def Let_def generateUId_def indexOf_absent split: if_splits)
    qed
  qed
next
  case Null
  with assms show ?thesis by (auto simp: addComponent_def)
next
  case Undefined
  with assms show ?thesis by (auto simp: addComponent_def)
qed

lemma removeComponent_hosts:
  "hosts (snd (removeComponent this (Ref c) w)) =
     (case host_components (hosts w this) of
        None \<Rightarrow> hosts w
      | Some cs \<Rightarrow>
          if c \<in> set cs
          then (hosts w)(this := (hosts w this)\<lparr>host_components := Some (remove1 c cs)\<rparr>)
          else hosts w)"
  by (simp add: removeComponent_def Let_def indexOf_absent splice1_indexOf split: option.splits)

lemma removeComponent_distinct:
  assumes "\<forall>h cs. host_components (hosts w h) = Some cs \<longrightarrow> distinct cs"
    and "host_components (hosts (snd (removeComponent this r w)) h) = Some cs"
  shows "distinct cs"
proof (cases r)
  case (Ref c)
  show ?thesis
  proof (cases "host_components (hosts w this)")
    case None
    with assms Ref show ?thesis by (simp add: removeComponent_hosts)
  next
    case (Some ds)
    with assms(1) have ds: "distinct ds" by blast
    from assms(1) have other: "host_components (hosts w h) = Some cs \<Longrightarrow> distinct cs" by blast
    from assms(2) Ref Some ds other show ?thesis
      by (cases "h = this") (auto simp: removeComponent_hosts split: if_splits)
  qed
next
  case Null
  with assms show ?thesis by (auto simp: removeComponent_def)
next
  case Undefined
  with assms show ?thesis by (auto simp: removeComponent_def)
qed

lemma removeAllComponents_distinct:
  "\<forall>h cs. host_components (hosts w h) = Some cs \<longrightarrow> distinct cs \<Longrightarrow>
   \<forall>h cs. host_components (hosts (snd (removeAllComponents this w)) h) = Some cs \<longrightarrow> distinct cs"
proof (induction this w rule: removeAllComponents.induct)
  case (1 this w)
  show ?case
  proof (cases "host_components (hosts w this)")
    case None
    with "1.prems" show ?thesis by (simp add: removeAllComponents.simps [of this w])
  next
    case (Some cs)
    show ?thesis
    proof (cases "length cs \<noteq> 0")
      case False
      with Some "1.prems" show ?thesis by (simp add: removeAllComponents.simps [of this w])
    next
      case True
      obtain r w' where rm: "removeComponent this (Ref (cs ! 0)) w = (r, w')"
        by (cases "removeComponent this (Ref (cs ! 0)) w")
      have inv': "\<forall>h cs. host_components (hosts w' h) = Some cs \<longrightarrow> distinct cs"
        using removeComponent_distinct [OF "1.prems", of this "Ref (cs ! 0)"] rm by auto
      show ?thesis
      proof (cases r)
        case (Inl e)
        with Some True rm inv' show ?thesis by (simp add: removeAllComponents.simps [of this w])
      next
        case (Inr u)
        from "1.IH" [OF Some True rm [symmetric] Inr inv'] Some True rm Inr
        show ?thesis by (simp add: removeAllComponents.simps [of this w])
      qed
    qed
  qed
qed

lemma configure_loop_distinct:
  "\<forall>h cs. host_components (hosts w h) = Some cs \<longrightarrow> distinct cs \<Longrightarrow>
   \<forall>h cs. host_components (hosts (snd (configure_loop reg this i es w)) h) = Some cs
     \<longrightarrow> distinct cs"
proof (induction es arbitrary: w i)
  case Nil
  then show ?case by simp
next
  case (Cons e es)
  show ?case
  proof (cases "fst e = ''Transform'' \<and> i = 0")
    case True
    show ?thesis
    proof (cases "host_transform (hosts w this)")
      case None
      with True Cons.prems show ?thesis by simp
    next
      case (Some t)
      show ?thesis
      proof (cases "configure (heap w ! t)")
        case False
        with True Some Cons.prems show ?thesis by simp
      next
        case cfg: True
        define w' where "w' = emit (Configure t (snd e)) w"
        have eq: "configure_loop reg this i (e # es) w = configure_loop reg this (Suc i) es w'"
          using True Some cfg by (simp add: w'_def)
        have "\<forall>h cs. host_components (hosts w' h) = Some cs \<longrightarrow> distinct cs"
          using Cons.prems by (simp add: w'_def)
        from Cons.IH [OF this, of "Suc i"] show ?thesis unfolding eq .
      qed
    qed
  next
    case False
    show ?thesis
    proof (cases "reg (fst e)")
      case None
      define w' where "w' = emit (ConsoleError (''Unknown component found: '' @ fst e)) w"
      have eq: "configure_loop reg this i (e # es) w = configure_loop reg this (Suc i) es w'"
        using False None by (auto simp: w'_def Let_def)
      have "\<forall>h cs. host_components (hosts w' h) = Some cs \<longrightarrow> distinct cs"
        using Cons.prems by (simp add: w'_def)
      from Cons.IH [OF this, of "Suc i"] show ?thesis unfolding eq .
    next
      case (Some ctor)
      define w1 where "w1 = w\<lparr>heap := heap w @ [ctor (snd e)]\<rparr>"
      define n where "n = length (heap w)"
      obtain r w2 where add: "addComponent this (Ref n) w1 = (r, w2)"
        by (cases "addComponent this (Ref n) w1")
      have "\<forall>h cs. host_components (hosts w1 h) = Some cs \<longrightarrow> distinct cs"
        using Cons.prems by (simp add: w1_def)
      then have inv2: "\<forall>h cs. host_components (hosts w2 h) = Some cs \<longrightarrow> distinct cs"
        using addComponent_distinct [of w1 this "Ref n"] add by auto
      show ?thesis
      proof (cases r)
        case (Inl err)
        have eq: "configure_loop reg this i (e # es) w = (Inl err, w2)"
          using False Some add Inl by (auto simp: Let_def new_component_def w1_def n_def)
        show ?thesis unfolding eq using inv2 by simp
      next
        case (Inr v)
        have eq: "configure_loop reg this i (e # es) w = configure_loop reg this (Suc i) es w2"
          using False Some add Inr by (auto simp: Let_def new_component_def w1_def n_def)
        from Cons.IH [OF inv2, of "Suc i"] show ?thesis unfolding eq .
      qed
    qed
  qed
qed

lemma step_distinct:
  assumes "\<forall>h cs. host_components (hosts w h) = Some cs \<longrightarrow> distinct cs"
  shows "\<forall>h cs. host_components (hosts (step x w) h) = Some cs \<longrightarrow> distinct cs"
proof (cases x)
  case (AddComponent this r)
  with addComponent_distinct [OF assms] show ?thesis by auto
next
  case (RemoveComponent this r)
  with removeComponent_distinct [OF assms] show ?thesis by auto
next
  case (RemoveAllComponents this)
  with removeAllComponents_distinct [OF assms] show ?thesis by simp
next
  case (ConfigureComponents reg this info)
  with configure_loop_distinct [OF assms] assms show ?thesis
    by (simp add: configureComponents_def split: option.splits)
qed

lemma run_distinct:
  "\<forall>h cs. host_components (hosts w h) = Some cs \<longrightarrow> distinct cs \<Longrightarrow>
   \<forall>h cs. host_components (hosts (run ops w) h) = Some cs \<longrightarrow> distinct cs"
proof (induction ops arbitrary: w)
  case Nil
  then show ?case by simp
next
  case (Cons x xs)
  from Cons.IH [OF step_distinct [OF Cons.prems]] show ?case by simp
qed

lemma reachable_collections_distinct:
  assumes "\<forall>h. host_components (hosts w h) = None"
    and "host_components (hosts (run ops w) h) = Some cs"
  shows "distinct cs"
proof -
  from assms(1) have "\<forall>h cs. host_components (hosts w h) = Some cs \<longrightarrow> distinct cs" by simp
  from run_distinct [OF this] assms(2) show ?thesis by blast
qed

section \<open>The claims\<close>

text \<open>
  Claim C7. For every host and every index outside the range of the component collection
  (any index at all while \<open>_components\<close> does not exist yet), \<open>getComponentByIndex\<close>
  returns none (\<open>null\<close> or \<open>undefined\<close>); the method has no failing branch.
\<close>

theorem getComponentByIndex_out_of_range:
  assumes "case host_components (hosts w this) of
             None \<Rightarrow> True
           | Some cs \<Rightarrow> index < 0 \<or> int (length cs) \<le> index"
  shows "getComponentByIndex this index w = Null \<or> getComponentByIndex this index w = Undefined"
  using assms by (auto simp: getComponentByIndex_def split: option.splits)

theorem getComponentByIndex_out_of_range_witness:
  "(case host_components (hosts attached_world 0) of
      None \<Rightarrow> True | Some cs \<Rightarrow> (1::int) < 0 \<or> int (length cs) \<le> 1)
   \<and> getComponentByIndex 0 1 attached_world = Undefined
   \<and> getComponentByIndex 0 1 fresh_world = Null"
  using getComponentByIndex_out_of_range [where w = attached_world and this = 0 and index = 1]
  by (simp add: attached_world_def fresh_world_def empty_host_def getComponentByIndex_def)

text \<open>
  Claim C8. On a host whose \<open>_components\<close> was never created, \<open>removeComponent\<close> with a
  non-null argument and \<open>removeAllComponents\<close> raise a TypeError, while
  \<open>getIndexOfComponent\<close>, \<open>getComponent\<close>, \<open>hasComponent\<close> and \<open>getComponentByUId\<close> return
  -1, null, false and null.
\<close>

theorem uninitialized_host_behaviour:
  assumes "host_components (hosts w this) = None"
  shows "fst (removeComponent this (Ref c) w) = Inl TypeError
       \<and> fst (removeAllComponents this w) = Inl TypeError
       \<and> getIndexOfComponent this r w = -1
       \<and> getComponent this k w = Null
       \<and> hasComponent this k w = False
       \<and> getComponentByUId this u w = Null"
proof -
  have "fst (removeComponent this (Ref c) w) = Inl TypeError"
    using assms by (simp add: removeComponent_def Let_def)
  moreover have "fst (removeAllComponents this w) = Inl TypeError"
    using assms by (simp add: removeAllComponents.simps [of this w])
  moreover have "getIndexOfComponent this r w = -1"
    using assms by (simp add: getIndexOfComponent_def)
  moreover have "getComponent this k w = Null" "hasComponent this k w = False"
    "getComponentByUId this u w = Null"
    using assms by (simp_all add: getComponent_def hasComponent_def getComponentByUId_def)
  ultimately show ?thesis by simp
qed

theorem uninitialized_host_behaviour_witness:
  "host_components (hosts fresh_world 0) = None
   \<and> fst (removeComponent 0 (Ref 0) fresh_world) = Inl TypeError
   \<and> fst (removeAllComponents 0 fresh_world) = Inl TypeError
   \<and> getIndexOfComponent 0 (Ref 0) fresh_world = -1
   \<and> getComponent 0 (ClassName ''Light'') fresh_world = Null
   \<and> hasComponent 0 (ClassName ''Light'') fresh_world = False
   \<and> getComponentByUId 0 ''COMP-0'' fresh_world = Null"
  using uninitialized_host_behaviour [where w = fresh_world and this = 0 and c = 0 and r = "Ref 0" and k = "ClassName ''Light''" and u = "''COMP-0''"]
  by (simp add: fresh_world_def empty_host_def)

text \<open>
  Claim C3. Adding a component that is already in the host's collection throws, and the
  collection is the same list as before (so its length is unchanged).
\<close>

theorem addComponent_duplicate_throws:
  assumes "host_components (hosts w this) = Some cs" and "c \<in> set cs"
  shows "fst (addComponent this (Ref c) w) = Inl (Thrown ''inserting the same component twice'')
       \<and> getComponents this (snd (addComponent this (Ref c) w)) = Some cs
       \<and> length (the (getComponents this (snd (addComponent this (Ref c) w)))) = length cs"
  using assms by (simp add: addComponent_def Let_def indexOf_absent getComponents_def)

theorem addComponent_duplicate_throws_witness:
  "host_components (hosts attached_world 0) = Some [0] \<and> (0::nat) \<in> set [0]
   \<and> fst (addComponent 0 (Ref 0) attached_world) = Inl (Thrown ''inserting the same component twice'')
   \<and> getComponents 0 (snd (addComponent 0 (Ref 0) attached_world)) = Some [0]"
  using addComponent_duplicate_throws [where w = attached_world and this = 0 and cs = "[0]" and c = 0]
  by (simp add: attached_world_def)

text \<open>
  Claim C10. The failing duplicate \<open>addComponent\<close> is not atomic for the component: when
  the exception is raised, \<open>_root\<close> already points to this host and the
  \<open>onAddedToNode\<close> hook, if the component has one, has been called once; the hosts
  (hence the collection) and the component's uid are as before.
\<close>

theorem addComponent_duplicate_not_atomic:
  assumes "host_components (hosts w this) = Some cs" and "c \<in> set cs"
    and "c < length (heap w)"
  shows "(\<exists>e. fst (addComponent this (Ref c) w) = Inl e)
       \<and> root (heap (snd (addComponent this (Ref c) w)) ! c) = Some this
       \<and> trace (snd (addComponent this (Ref c) w)) =
           trace w @ (if onAddedToNode (heap w ! c) then [OnAddedToNode c this] else [])
       \<and> hosts (snd (addComponent this (Ref c) w)) = hosts w
       \<and> uid (heap (snd (addComponent this (Ref c) w)) ! c) = uid (heap w ! c)"
  using assms by (simp add: addComponent_def Let_def indexOf_absent)

theorem addComponent_duplicate_not_atomic_witness:
  "host_components (hosts attached_world 0) = Some [0] \<and> (0::nat) \<in> set [0]
   \<and> 0 < length (heap attached_world)
   \<and> root (heap (snd (addComponent 0 (Ref 0) attached_world)) ! 0) = Some 0
   \<and> trace (snd (addComponent 0 (Ref 0) attached_world)) = [OnAddedToNode 0 0, OnAddedToNode 0 0]
   \<and> uid (heap (snd (addComponent 0 (Ref 0) attached_world)) ! 0) = Some ''COMP-0''"
  using addComponent_duplicate_not_atomic [where w = attached_world and this = 0 and cs = "[0]" and c = 0]
  by (simp add: attached_world_def light_def)

text \<open>
  Claim C9. \<open>removeComponent\<close> of a non-null component that is not in the (existing)
  collection returns normally and still clears the component's \<open>_root\<close>, calls its
  \<open>onRemovedFromNode\<close> hook if it has one, and calls \<open>LEvent.unbindAll(this, component)\<close>;
  no host changes.
\<close>

theorem removeComponent_absent_side_effects:
  assumes "host_components (hosts w this) = Some cs" and "c \<notin> set cs"
    and "c < length (heap w)"
  shows "fst (removeComponent this (Ref c) w) = Inr ()
       \<and> root (heap (snd (removeComponent this (Ref c) w)) ! c) = None
       \<and> trace (snd (removeComponent this (Ref c) w)) =
           trace w @ (if onRemovedFromNode (heap w ! c) then [OnRemovedFromNode c this] else [])
                   @ [UnbindAll this c]
       \<and> hosts (snd (removeComponent this (Ref c) w)) = hosts w"
  using assms by (simp add: removeComponent_def Let_def indexOf_absent)

theorem removeComponent_absent_side_effects_witness:
  "host_components (hosts attached_world 0) = Some [0] \<and> (1::nat) \<notin> set [0]
   \<and> 1 < length (heap attached_world)
   \<and> fst (removeComponent 0 (Ref 1) attached_world) = Inr ()
   \<and> root (heap (snd (removeComponent 0 (Ref 1) attached_world)) ! 1) = None
   \<and> trace (snd (removeComponent 0 (Ref 1) attached_world)) = [OnAddedToNode 0 0, UnbindAll 0 1]
   \<and> hosts (snd (removeComponent 0 (Ref 1) attached_world)) = hosts attached_world"
  using removeComponent_absent_side_effects [where w = attached_world and this = 0 and cs = "[0]" and c = 1]
  by (simp add: attached_world_def camera_def)

text \<open>
  Claim C4. For a non-null component \<open>c\<close> that is not in the host's collection,
  \<open>addComponent\<close> returns \<open>c\<close>, sets its \<open>_root\<close> to the host and appends it at the end of
  the collection; afterwards \<open>getIndexOfComponent(c)\<close> is at least 0 and \<open>hasComponent\<close>
  is true for the class of \<open>c\<close>, given as the class or as its name.
\<close>

theorem addComponent_attaches:
  assumes "c < length (heap w)"
    and "case host_components (hosts w this) of None \<Rightarrow> True | Some cs \<Rightarrow> c \<notin> set cs"
  shows "fst (addComponent this (Ref c) w) = Inr (Ref c)
       \<and> root (heap (snd (addComponent this (Ref c) w)) ! c) = Some this
       \<and> getComponents this (snd (addComponent this (Ref c) w)) =
           Some ((case host_components (hosts w this) of None \<Rightarrow> [] | Some cs \<Rightarrow> cs) @ [c])
       \<and> 0 \<le> getIndexOfComponent this (Ref c) (snd (addComponent this (Ref c) w))
       \<and> hasComponent this (ClassRef (constructor (heap w ! c))) (snd (addComponent this (Ref c) w))
       \<and> hasComponent this (ClassName (class_name (constructor (heap w ! c))))
           (snd (addComponent this (Ref c) w))"
proof -
  define w' where "w' = snd (addComponent this (Ref c) w)"
  define cs0 where "cs0 = (case host_components (hosts w this) of None \<Rightarrow> [] | Some cs \<Rightarrow> cs)"
  have absent: "indexOf cs0 c = -1"
    using assms(2) by (auto simp: cs0_def indexOf_absent split: option.splits)
  have res: "fst (addComponent this (Ref c) w) = Inr (Ref c)"
    using absent by (auto simp: addComponent_def Let_def cs0_def split: option.splits prod.splits)
  have comps: "host_components (hosts w' this) = Some (cs0 @ [c])"
    using absent
    by (auto simp: w'_def addComponent_def Let_def cs0_def generateUId_def split: option.splits)
  have rt: "root (heap w' ! c) = Some this"
    using absent assms(1)
    by (auto simp: w'_def addComponent_def Let_def cs0_def generateUId_def
        split: option.splits)
  have cls: "constructor (heap w' ! c) = constructor (heap w ! c)"
    using absent assms(1)
    by (auto simp: w'_def addComponent_def Let_def cs0_def generateUId_def
        split: option.splits)
  have idx: "0 \<le> getIndexOfComponent this (Ref c) w'"
    using comps by (simp add: getIndexOfComponent_def indexOf_nonneg)
  have "first_match (matches (ClassRef (constructor (heap w ! c)))) (heap w') (cs0 @ [c]) \<noteq> None"
    by (rule first_match_found [where c = c]) (simp_all add: matches_def cls)
  then have has1: "hasComponent this (ClassRef (constructor (heap w ! c))) w'"
    using comps by (auto simp: hasComponent_def)
  have "first_match (matches (ClassName (class_name (constructor (heap w ! c))))) (heap w')
          (cs0 @ [c]) \<noteq> None"
    by (rule first_match_found [where c = c]) (simp_all add: matches_def cls)
  then have has2: "hasComponent this (ClassName (class_name (constructor (heap w ! c)))) w'"
    using comps by (auto simp: hasComponent_def)
  from res rt comps idx has1 has2 show ?thesis
    by (simp add: w'_def cs0_def getComponents_def)
qed

theorem addComponent_attaches_witness:
  "1 < length (heap attached_world)
   \<and> (case host_components (hosts attached_world 0) of None \<Rightarrow> True | Some cs \<Rightarrow> 1 \<notin> set cs)
   \<and> fst (addComponent 0 (Ref 1) attached_world) = Inr (Ref 1)
   \<and> root (heap (snd (addComponent 0 (Ref 1) attached_world)) ! 1) = Some 0
   \<and> getComponents 0 (snd (addComponent 0 (Ref 1) attached_world)) = Some [0, 1]
   \<and> 0 \<le> getIndexOfComponent 0 (Ref 1) (snd (addComponent 0 (Ref 1) attached_world))
   \<and> hasComponent 0 (ClassRef (JSClass 2 ''Camera'')) (snd (addComponent 0 (Ref 1) attached_world))
   \<and> hasComponent 0 (ClassName ''Camera'') (snd (addComponent 0 (Ref 1) attached_world))"
  using addComponent_attaches [where w = attached_world and this = 0 and c = 1]
  by (simp add: attached_world_def camera_def)

text \<open>
  Claim C5. For a host with an existing collection and a non-null component \<open>c\<close> (the
  collection without repeated entries, which \<open>reachable_collections_distinct\<close> shows of
  every collection the methods build): after \<open>removeComponent(c)\<close> the
  \<open>_root\<close> of \<open>c\<close> is cleared and \<open>getIndexOfComponent(c)\<close> is -1; the collection is
  unchanged when \<open>c\<close> was not in it, and in every case it is the old collection without
  \<open>c\<close>, the other components in their old order.
\<close>

theorem removeComponent_detaches:
  assumes "host_components (hosts w this) = Some cs" and "distinct cs"
    and "c < length (heap w)"
  shows "fst (removeComponent this (Ref c) w) = Inr ()
       \<and> root (heap (snd (removeComponent this (Ref c) w)) ! c) = None
       \<and> getIndexOfComponent this (Ref c) (snd (removeComponent this (Ref c) w)) = -1
       \<and> (c \<notin> set cs \<longrightarrow> getComponents this (snd (removeComponent this (Ref c) w)) = Some cs)
       \<and> getComponents this (snd (removeComponent this (Ref c) w)) = Some (filter (\<lambda>x. x \<noteq> c) cs)"
proof -
  define w' where "w' = snd (removeComponent this (Ref c) w)"
  have res: "fst (removeComponent this (Ref c) w) = Inr ()"
    using assms(1) by (simp add: removeComponent_def Let_def)
  have rt: "root (heap w' ! c) = None"
    using assms(1,3) by (simp add: w'_def removeComponent_def Let_def)
  have rem: "remove1 c cs = filter (\<lambda>x. x \<noteq> c) cs"
    using assms(2) by (rule remove1_distinct_filter)
  have comps: "host_components (hosts w' this) = Some (filter (\<lambda>x. x \<noteq> c) cs)"
  proof (cases "c \<in> set cs")
    case True
    then show ?thesis
      using assms(1) rem
      by (simp add: w'_def removeComponent_def Let_def indexOf_absent splice1_indexOf)
  next
    case False
    then have "filter (\<lambda>x. x \<noteq> c) cs = cs" by (rule filter_other_id)
    with False show ?thesis
      using assms(1) by (simp add: w'_def removeComponent_def Let_def indexOf_absent)
  qed
  have idx: "getIndexOfComponent this (Ref c) w' = -1"
    using comps by (simp add: getIndexOfComponent_def indexOf_absent)
  have same: "c \<notin> set cs \<longrightarrow> host_components (hosts w' this) = Some cs"
    using assms(1) by (simp add: w'_def removeComponent_def Let_def indexOf_absent)
  from res rt idx same comps show ?thesis
    by (simp add: w'_def getComponents_def)
qed

theorem removeComponent_detaches_witness:
  "host_components (hosts two_world 0) = Some [0, 1] \<and> distinct [0, 1::nat]
   \<and> 0 < length (heap two_world)
   \<and> fst (removeComponent 0 (Ref 0) two_world) = Inr ()
   \<and> root (heap (snd (removeComponent 0 (Ref 0) two_world)) ! 0) = None
   \<and> getIndexOfComponent 0 (Ref 0) (snd (removeComponent 0 (Ref 0) two_world)) = -1
   \<and> getComponents 0 (snd (removeComponent 0 (Ref 0) two_world)) = Some [1]"
  using removeComponent_detaches [where w = two_world and this = 0 and cs = "[0, 1]" and c = 0]
  by (simp add: two_world_def)

text \<open>
  Claim C2, as stated, fails: \<open>serializeComponents\<close> assigns \<open>o.components = []\<close> whenever
  the host has a collection, so an entry already in \<open>target.components\<close> is dropped; and
  when the host has no collection it returns before creating the list.
\<close>

theorem serializeComponents_overwrites_target:
  "components (serializeComponents 0 \<lparr>components = Some [(''Old'', [])]\<rparr> two_world)
     = Some [(''Light'', [(''intensity'', JNum 2), (''uid'', JStr ''COMP-0'')])]
   \<and> components (serializeComponents 0 \<lparr>components = Some [(''Old'', [])]\<rparr> two_world)
     \<noteq> Some [(''Old'', []), (''Light'', [(''intensity'', JNum 2), (''uid'', JStr ''COMP-0'')])]
   \<and> components (serializeComponents 0 \<lparr>components = None\<rparr> fresh_world) = None"
  by (simp add: serializeComponents_def two_world_def fresh_world_def empty_host_def light_def
      camera_def get_prop_def set_prop_def getObjectClassName_def)

text \<open>
  Claim C2, amended. When the host has a collection, \<open>serializeComponents(target)\<close> sets
  \<open>target.components\<close> to a new list that holds exactly one pair \<open>[class_name, data]\<close> for
  each attached component exposing \<open>serialize\<close>, in attachment order (components without
  \<open>serialize\<close> are skipped), whatever \<open>target.components\<close> held before; when the host has
  no collection yet, the target is returned as it was.
\<close>

theorem serializeComponents_replaces_list:
  "(host_components (hosts w this) = Some cs \<longrightarrow>
      components (serializeComponents this target w) = Some (component_pairs (heap w) cs))
   \<and> (host_components (hosts w this) = None \<longrightarrow> serializeComponents this target w = target)"
  by (simp add: serializeComponents_def serialize_loop_pairs)

theorem serializeComponents_replaces_list_witness:
  "host_components (hosts two_world 0) = Some [0, 1]
   \<and> components (serializeComponents 0 \<lparr>components = Some [(''Old'', [])]\<rparr> two_world)
       = Some [(''Light'', [(''intensity'', JNum 2), (''uid'', JStr ''COMP-0'')])]
   \<and> host_components (hosts fresh_world 0) = None
   \<and> serializeComponents 0 \<lparr>components = Some [(''Old'', [])]\<rparr> fresh_world
       = \<lparr>components = Some [(''Old'', [])]\<rparr>"
  using serializeComponents_replaces_list [where w = two_world and this = 0 and cs = "[0, 1]"
      and target = "\<lparr>components = Some [(''Old'', [])]\<rparr>"]
    serializeComponents_replaces_list [where w = fresh_world and this = 0
      and target = "\<lparr>components = Some [(''Old'', [])]\<rparr>"]
  by (simp add: two_world_def fresh_world_def empty_host_def light_def camera_def
      component_pairs_def carried_data_def get_prop_def set_prop_def)

text \<open>
  Claim C6. A component's uid is assigned at most once and never changes afterwards:
  across any sequence of \<open>addComponent\<close>, \<open>removeComponent\<close>, \<open>removeAllComponents\<close> and
  \<open>configureComponents\<close> calls on any hosts, a uid that a component has is the uid it
  keeps; and a single call changes the uid of a component only when the component had
  none and the call is \<open>addComponent\<close> of that very component.
\<close>

theorem uid_assigned_once:
  assumes "c < length (heap w)"
  shows "(\<forall>u. uid (heap w ! c) = Some u \<longrightarrow> uid (heap (run ops w) ! c) = Some u)
       \<and> (uid (heap (step x w) ! c) \<noteq> uid (heap w ! c)
            \<longrightarrow> uid (heap w ! c) = None \<and> (\<exists>this. x = AddComponent this (Ref c)))"
  using assms run_frame [of c w _ ops] step_changes_uid [of c w x] by blast

theorem uid_assigned_once_witness:
  "0 < length (heap attached_world)
   \<and> uid (heap attached_world ! 0) = Some ''COMP-0''
   \<and> uid (heap (run [RemoveComponent 0 (Ref 0), AddComponent 1 (Ref 0), AddComponent 0 (Ref 0)]
                 attached_world) ! 0) = Some ''COMP-0''
   \<and> 1 < length (heap attached_world)
   \<and> uid (heap (step (AddComponent 0 (Ref 1)) attached_world) ! 1) = Some ''COMP-1''
   \<and> uid (heap attached_world ! 1) = None"
proof -
  have len0: "0 < length (heap attached_world)" and len1: "1 < length (heap attached_world)"
    by (simp_all add: attached_world_def)
  have u0: "uid (heap attached_world ! 0) = Some ''COMP-0''"
    and u1: "uid (heap attached_world ! 1) = None"
    by (simp_all add: attached_world_def light_def camera_def)
  have kept: "uid (heap (run [RemoveComponent 0 (Ref 0), AddComponent 1 (Ref 0),
      AddComponent 0 (Ref 0)] attached_world) ! 0) = Some ''COMP-0''"
    using uid_assigned_once [OF len0] u0 by blast
  have new: "uid (heap (step (AddComponent 0 (Ref 1)) attached_world) ! 1) = Some ''COMP-1''"
    by (simp add: attached_world_def camera_def empty_host_def addComponent_def Let_def
        indexOf_def generateUId_def digits.simps [of "Suc 0"])
  from len0 len1 u0 u1 kept new show ?thesis by simp
qed




end
